theory Spec2Isabelle
  imports Complex_Main "HOL-Library.Multiset"
begin

section \<open>Deposit interest calculator: the calculation engine\<close>

text \<open>
  A shallow embedding of the engine, \<^verbatim>\<open>src/lib/interest-calculator.ts\<close>
  (\<^verbatim>\<open>calculateDays\<close>, \<^verbatim>\<open>splitAmountByTiers\<close>, the two period interest formulas and
  \<^verbatim>\<open>calculateInterest\<close>), and of the copy of the tier splitter that the day-by-day
  table component keeps.

  Conventions of the embedding.
  \<^item> A \<^verbatim>\<open>Decimal\<close> is the real number it denotes. The library is configured for 50
    significant digits and rounds the result of every operation to that precision; the
    rounding is not part of the model, which follows the exact arithmetic in which the
    formulas are written. An equation between amounts below is therefore exact in the
    model and holds up to that rounding in the program.
  \<^item> A string that the code hands to \<^verbatim>\<open>new Decimal\<close> stays a \<open>string\<close>; the
    constructor is a parser that can fail, and its failure is the thrown
    \<^verbatim>\<open>DecimalError\<close>, the \<open>Inl\<close> of a result. A string made by
    \<^verbatim>\<open>Decimal.toString\<close> and read back at once (the running balance, a tier amount)
    is passed as the number itself.
  \<^item> A JavaScript \<^verbatim>\<open>Date\<close> is its time value, the milliseconds since the epoch, an
    \<open>int\<close>. The time zone of the host is a fixed offset \<open>tz\<close> in milliseconds (local
    time is \<open>t + tz\<close>; \<open>tz = 0\<close> is a host in UTC); daylight-saving changes are outside
    the model. The date arithmetic follows the abstract operations of ECMA-262
    (\<^verbatim>\<open>Day\<close>, \<^verbatim>\<open>DayFromYear\<close>, \<^verbatim>\<open>YearFromTime\<close>, \<^verbatim>\<open>MonthFromTime\<close>,
    \<^verbatim>\<open>DateFromTime\<close>, \<^verbatim>\<open>MakeDay\<close>, \<^verbatim>\<open>MakeDate\<close>).
  \<^item> An ISO date string \<^verbatim>\<open>YYYY-MM-DD\<close> is the record of its three numbers; the
    record stands for a well-formed string (what \<^verbatim>\<open>Date\<close> makes of an ill-formed
    one, an invalid date, is not modelled).
\<close>

subsection \<open>Calendar arithmetic of the Date object\<close>

type_synonym time = int

definition msPerDay :: int where
  "msPerDay = 86400000"

definition Day :: "time \<Rightarrow> int" where
  "Day t = t div msPerDay"

definition TimeWithinDay :: "time \<Rightarrow> int" where
  "TimeWithinDay t = t mod msPerDay"

definition DaysInYear :: "int \<Rightarrow> int" where
  "DaysInYear y =
     (if y mod 4 \<noteq> 0 then 365
      else if y mod 100 \<noteq> 0 then 366
      else if y mod 400 \<noteq> 0 then 365
      else 366)"

text \<open>The two helpers of the source; \<open>getDaysInYear\<close> is \<open>DaysInYear\<close>.\<close>

definition isLeapYear :: "int \<Rightarrow> bool" where
  "isLeapYear y \<longleftrightarrow> (y mod 4 = 0 \<and> y mod 100 \<noteq> 0) \<or> y mod 400 = 0"

definition getDaysInYear :: "int \<Rightarrow> int" where
  "getDaysInYear y = (if isLeapYear y then 366 else 365)"

definition DayFromYear :: "int \<Rightarrow> int" where
  "DayFromYear y =
     365 * (y - 1970) + (y - 1969) div 4 - (y - 1901) div 100 + (y - 1601) div 400"

text \<open>
  ECMA-262 defines the year of a day as the largest \<open>y\<close> with \<open>DayFromYear y \<le> d\<close>. The
  executable form estimates the year from the mean length of a Gregorian year and
  corrects the estimate by at most one; \<open>YearFromDay_bounds\<close> and \<open>YearFromDay_unique\<close>
  below show that it is that largest \<open>y\<close>.
\<close>

definition YearFromDay :: "int \<Rightarrow> int" where
  "YearFromDay d =
     (let y = 1970 + (400 * d) div 146097
      in if d < DayFromYear y then y - 1
         else if DayFromYear (y + 1) \<le> d then y + 1
         else y)"

definition InLeapYear :: "int \<Rightarrow> int" where
  "InLeapYear d = (if DaysInYear (YearFromDay d) = 366 then 1 else 0)"

definition DayWithinYear :: "int \<Rightarrow> int" where
  "DayWithinYear d = d - DayFromYear (YearFromDay d)"

text \<open>The number of days of the year before month \<open>m\<close> (0 = January), \<open>l\<close> the leap flag.\<close>

definition monthOffset :: "int \<Rightarrow> int \<Rightarrow> int" where
  "monthOffset l m =
     (if m = 0 then 0 else if m = 1 then 31 else if m = 2 then 59 + l
      else if m = 3 then 90 + l else if m = 4 then 120 + l else if m = 5 then 151 + l
      else if m = 6 then 181 + l else if m = 7 then 212 + l else if m = 8 then 243 + l
      else if m = 9 then 273 + l else if m = 10 then 304 + l else 334 + l)"

definition MonthFromDay :: "int \<Rightarrow> int" where
  "MonthFromDay d =
     (let w = DayWithinYear d; l = InLeapYear d
      in if w < 31 then 0 else if w < 59 + l then 1 else if w < 90 + l then 2
         else if w < 120 + l then 3 else if w < 151 + l then 4 else if w < 181 + l then 5
         else if w < 212 + l then 6 else if w < 243 + l then 7 else if w < 273 + l then 8
         else if w < 304 + l then 9 else if w < 334 + l then 10 else 11)"

definition DateFromDay :: "int \<Rightarrow> int" where
  "DateFromDay d = DayWithinYear d - monthOffset (InLeapYear d) (MonthFromDay d) + 1"

definition MakeDay :: "int \<Rightarrow> int \<Rightarrow> int \<Rightarrow> int" where
  "MakeDay year month date =
     (let ym = year + month div 12; mn = month mod 12
      in DayFromYear ym + monthOffset (if DaysInYear ym = 366 then 1 else 0) mn + date - 1)"

definition MakeDate :: "int \<Rightarrow> int \<Rightarrow> time" where
  "MakeDate day tm = day * msPerDay + tm"

subsection \<open>The Date operations the engine uses\<close>

record iso_date =
  year :: int
  month :: int
  day :: int

text \<open>\<^verbatim>\<open>new Date("YYYY-MM-DD")\<close>: a date-only string is read as midnight UTC.\<close>

definition Date_parse :: "iso_date \<Rightarrow> time" where
  "Date_parse s = MakeDate (MakeDay (year s) (month s - 1) (day s)) 0"

text \<open>
  \<^verbatim>\<open>new Date(y, m, d)\<close>: midnight local time; a year from 0 to 99 means 1900 + year.
\<close>

definition Date_local :: "int \<Rightarrow> int \<Rightarrow> int \<Rightarrow> int \<Rightarrow> time" where
  "Date_local tz y m d =
     (let yr = (if 0 \<le> y \<and> y \<le> 99 then 1900 + y else y)
      in MakeDate (MakeDay yr m d) 0 - tz)"

definition getFullYear :: "int \<Rightarrow> time \<Rightarrow> int" where
  "getFullYear tz t = YearFromDay (Day (t + tz))"

definition getMonth :: "int \<Rightarrow> time \<Rightarrow> int" where
  "getMonth tz t = MonthFromDay (Day (t + tz))"

definition getDate :: "int \<Rightarrow> time \<Rightarrow> int" where
  "getDate tz t = DateFromDay (Day (t + tz))"

definition setDate :: "int \<Rightarrow> time \<Rightarrow> int \<Rightarrow> time" where
  "setDate tz t dt =
     (let lt = t + tz
      in MakeDate (MakeDay (YearFromDay (Day lt)) (MonthFromDay (Day lt)) dt)
           (TimeWithinDay lt) - tz)"

definition setMonth :: "int \<Rightarrow> time \<Rightarrow> int \<Rightarrow> time" where
  "setMonth tz t m =
     (let lt = t + tz
      in MakeDate (MakeDay (YearFromDay (Day lt)) m (DateFromDay (Day lt)))
           (TimeWithinDay lt) - tz)"

text \<open>\<^verbatim>\<open>d.toISOString().split('T')[0]\<close>: the UTC calendar date of a time value.\<close>

definition toISODate :: "time \<Rightarrow> iso_date" where
  "toISODate t =
     \<lparr>year = YearFromDay (Day t), month = MonthFromDay (Day t) + 1, day = DateFromDay (Day t)\<rparr>"

subsection \<open>Facts about the calendar arithmetic\<close>

lemma div_bounds:
  fixes x :: int
  assumes "0 < n"
  shows "n * (x div n) \<le> x \<and> x \<le> n * (x div n) + (n - 1)"
proof -
  have "x = n * (x div n) + x mod n" by simp
  moreover have "0 \<le> x mod n" "x mod n < n" using assms by simp_all
  ultimately show ?thesis by linarith
qed

lemma div_step:
  fixes x :: int
  assumes "0 < n"
  shows "(x + 1) div n = x div n + (if (x + 1) mod n = 0 then 1 else 0)"
proof (cases "(x + 1) mod n = 0")
  case True
  then have "n dvd x + 1" by (simp add: dvd_eq_mod_eq_0)
  then obtain k where k: "x + 1 = n * k" by (auto simp: dvd_def)
  then have x: "x = n * (k - 1) + (n - 1)" by (simp add: algebra_simps)
  have "(x + 1) div n = k" using k assms by simp
  moreover have "x div n = k - 1"
    using assms by (subst x, subst div_mult_self4) auto
  ultimately show ?thesis using True by simp
next
  case False
  define r where "r = x mod n"
  have r: "0 \<le> r" "r < n" using assms by (simp_all add: r_def)
  have x: "x = n * (x div n) + r" by (simp add: r_def)
  have "r + 1 \<noteq> n"
  proof
    assume "r + 1 = n"
    then have "x + 1 = n * (x div n + 1)" using x by (simp add: algebra_simps)
    then have "(x + 1) mod n = 0" by (metis mod_mult_self1_is_0)
    with False show False by simp
  qed
  then have r1: "r + 1 < n" using r by simp
  have "x + 1 = n * (x div n) + (r + 1)" using x by simp
  then have "(x + 1) div n = x div n + (r + 1) div n"
    using assms by (metis div_mult_self4 less_irrefl)
  then show ?thesis using False r r1 by simp
qed

lemma mod_shift: "(y - n * k) mod n = y mod n" for y :: int
  by (metis mod_diff_right_eq mod_mult_self1_is_0 diff_zero)

lemma leap_mods:
  fixes y :: int
  shows "(y - 1968) mod 4 = 0 \<longleftrightarrow> y mod 4 = 0"
    and "(y - 1900) mod 100 = 0 \<longleftrightarrow> y mod 100 = 0"
    and "(y - 1600) mod 400 = 0 \<longleftrightarrow> y mod 400 = 0"
  using mod_shift[of y 4 492] mod_shift[of y 100 19] mod_shift[of y 400 4] by simp_all

lemma leap_dvd:
  fixes y :: int
  shows "y mod 100 = 0 \<Longrightarrow> y mod 4 = 0" and "y mod 400 = 0 \<Longrightarrow> y mod 100 = 0"
proof -
  have "(4::int) dvd 100" "(100::int) dvd 400" by simp_all
  then show "y mod 100 = 0 \<Longrightarrow> y mod 4 = 0" "y mod 400 = 0 \<Longrightarrow> y mod 100 = 0"
    by (meson dvd_trans mod_eq_0_iff_dvd)+
qed

lemma getDaysInYear_DaysInYear: "getDaysInYear y = DaysInYear y"
  using leap_dvd[of y] by (simp add: getDaysInYear_def isLeapYear_def DaysInYear_def)

lemma DaysInYear_range: "365 \<le> DaysInYear y \<and> DaysInYear y \<le> 366"
  by (simp add: DaysInYear_def)

lemma DayFromYear_Suc: "DayFromYear (y + 1) = DayFromYear y + DaysInYear y"
proof -
  have a: "(y + 1 - 1969) div 4 = (y - 1969) div 4 + (if y mod 4 = 0 then 1 else 0)"
    using div_step[of 4 "y - 1969"] leap_mods(1)[of y] by (simp add: algebra_simps)
  have b: "(y + 1 - 1901) div 100 = (y - 1901) div 100 + (if y mod 100 = 0 then 1 else 0)"
    using div_step[of 100 "y - 1901"] leap_mods(2)[of y] by (simp add: algebra_simps)
  have c: "(y + 1 - 1601) div 400 = (y - 1601) div 400 + (if y mod 400 = 0 then 1 else 0)"
    using div_step[of 400 "y - 1601"] leap_mods(3)[of y] by (simp add: algebra_simps)
  show ?thesis
    unfolding DayFromYear_def DaysInYear_def a b c
    using leap_dvd[of y] by auto
qed

lemma DayFromYear_estimate:
  "146097 * (y - 1970) - 506 \<le> 400 * DayFromYear y"
  "400 * DayFromYear y \<le> 146097 * (y - 1970) + 589"
proof -
  define a where "a = (y - 1969) div 4"
  define b where "b = (y - 1901) div 100"
  define c where "c = (y - 1601) div 400"
  have A: "4 * a \<le> y - 1969" "y - 1969 \<le> 4 * a + 3"
    using div_bounds[of 4 "y - 1969"] by (simp_all add: a_def)
  have B: "100 * b \<le> y - 1901" "y - 1901 \<le> 100 * b + 99"
    using div_bounds[of 100 "y - 1901"] by (simp_all add: b_def)
  have C: "400 * c \<le> y - 1601" "y - 1601 \<le> 400 * c + 399"
    using div_bounds[of 400 "y - 1601"] by (simp_all add: c_def)
  have D: "DayFromYear y = 365 * (y - 1970) + a - b + c"
    by (simp add: DayFromYear_def a_def b_def c_def)
  have "100 * (y - 1972) \<le> 100 * (4 * a)" using A(2) by simp
  moreover have "4 * (100 * b) \<le> 4 * (y - 1901)" using B(1) by simp
  ultimately show "146097 * (y - 1970) - 506 \<le> 400 * DayFromYear y"
    unfolding D using C(2) by simp
  have "100 * (4 * a) \<le> 100 * (y - 1969)" using A(1) by simp
  moreover have "4 * (y - 1901 - 99) \<le> 4 * (100 * b)" using B(2) by simp
  ultimately show "400 * DayFromYear y \<le> 146097 * (y - 1970) + 589"
    unfolding D using C(1) by simp
qed

lemma YearFromDay_bounds:
  "DayFromYear (YearFromDay d) \<le> d \<and> d < DayFromYear (YearFromDay d + 1)"
proof -
  define y where "y = 1970 + (400 * d) div 146097"
  have "146097 * ((400 * d) div 146097) \<le> 400 * d
      \<and> 400 * d \<le> 146097 * ((400 * d) div 146097) + 146096"
    using div_bounds[of 146097 "400 * d"] by simp
  then have a: "146097 * (y - 1970) \<le> 400 * d" "400 * d \<le> 146097 * (y - 1970) + 146096"
    by (simp_all add: y_def)
  have "400 * DayFromYear (y - 1) \<le> 400 * d"
    using DayFromYear_estimate(2)[of "y - 1"] a(1) by simp
  then have l: "DayFromYear (y - 1) \<le> d" by simp
  have "400 * d < 400 * DayFromYear (y + 2)"
    using DayFromYear_estimate(1)[of "y + 2"] a(2) by simp
  then have u: "d < DayFromYear (y + 2)" by simp
  have s1: "DayFromYear y = DayFromYear (y - 1) + DaysInYear (y - 1)"
    using DayFromYear_Suc[of "y - 1"] by simp
  have s2: "DayFromYear (y + 2) = DayFromYear (y + 1) + DaysInYear (y + 1)"
    using DayFromYear_Suc[of "y + 1"] by (simp add: add.assoc)
  show ?thesis
    unfolding YearFromDay_def Let_def y_def[symmetric]
    using l u s1 s2 by (auto simp: add.assoc)
qed

lemma DayFromYear_add: "DayFromYear y + 365 * int k \<le> DayFromYear (y + int k)"
proof (induction k)
  case 0
  then show ?case by simp
next
  case (Suc k)
  have "y + int (Suc k) = y + int k + 1" by simp
  then have "DayFromYear (y + int (Suc k)) = DayFromYear (y + int k) + DaysInYear (y + int k)"
    using DayFromYear_Suc[of "y + int k"] by presburger
  then show ?case using Suc DaysInYear_range[of "y + int k"] by simp
qed

lemma DayFromYear_mono: "y \<le> y' \<Longrightarrow> DayFromYear y \<le> DayFromYear y'"
  using DayFromYear_add[of y "nat (y' - y)"] by simp

lemma YearFromDay_unique:
  assumes "DayFromYear y \<le> d" "d < DayFromYear (y + 1)"
  shows "YearFromDay d = y"
proof (rule ccontr)
  assume n: "YearFromDay d \<noteq> y"
  have b: "DayFromYear (YearFromDay d) \<le> d" "d < DayFromYear (YearFromDay d + 1)"
    using YearFromDay_bounds by simp_all
  show False
  proof (cases "YearFromDay d < y")
    case True
    then have "DayFromYear (YearFromDay d + 1) \<le> DayFromYear y"
      by (intro DayFromYear_mono) simp
    with assms(1) b(2) show False by simp
  next
    case False
    with n have "DayFromYear (y + 1) \<le> DayFromYear (YearFromDay d)"
      by (intro DayFromYear_mono) simp
    with assms(2) b(1) show False by simp
  qed
qed

lemma MonthFromDay_range: "0 \<le> MonthFromDay d \<and> MonthFromDay d \<le> 11"
  by (simp add: MonthFromDay_def Let_def)

lemma InLeapYear_flag: "InLeapYear d = (if DaysInYear (YearFromDay d) = 366 then 1 else 0)"
  by (simp add: InLeapYear_def)

text \<open>A day, split into year, month and date, is put together again by \<open>MakeDay\<close>.\<close>

lemma MakeDay_fields:
  "MakeDay (YearFromDay d) (MonthFromDay d) (DateFromDay d + k) = d + k"
proof -
  have m: "MonthFromDay d div 12 = 0" "MonthFromDay d mod 12 = MonthFromDay d"
    using MonthFromDay_range[of d] by simp_all
  show ?thesis
    by (simp add: MakeDay_def Let_def m DateFromDay_def DayWithinYear_def InLeapYear_def)
qed

lemma MakeDate_Day: "Day (MakeDate n 0) = n" "TimeWithinDay (MakeDate n 0) = 0"
  by (simp_all add: MakeDate_def Day_def TimeWithinDay_def msPerDay_def)

lemma MakeDate_split: "MakeDate (Day t) (TimeWithinDay t) = t"
  by (simp add: MakeDate_def Day_def TimeWithinDay_def)

lemma setDate_next: "setDate tz t (getDate tz t + 1) = t + msPerDay"
proof -
  have "MakeDate (Day (t + tz) + 1) (TimeWithinDay (t + tz)) = t + tz + msPerDay"
    using MakeDate_split[of "t + tz"] by (simp add: MakeDate_def algebra_simps)
  then show ?thesis
    by (simp add: setDate_def getDate_def Let_def MakeDay_fields)
qed

lemma Date_parse_toISODate: "Date_parse (toISODate t) = MakeDate (Day t) 0"
  using MakeDay_fields[of "Day t" 0] by (simp add: Date_parse_def toISODate_def)

subsection \<open>calculateDays\<close>

text \<open>
  The loop of \<^verbatim>\<open>calculateDays\<close>: one step per iteration of
  \<^verbatim>\<open>while (currentDate <= end)\<close>, the date advanced by
  \<^verbatim>\<open>currentDate.setDate(currentDate.getDate() + 1)\<close>.
\<close>

function calculateDays_loop :: "int \<Rightarrow> time \<Rightarrow> time \<Rightarrow> int \<Rightarrow> int" where
  "calculateDays_loop tz currentDate end' totalDays =
     (if currentDate \<le> end'
      then calculateDays_loop tz (setDate tz currentDate (getDate tz currentDate + 1)) end'
             (totalDays + 1)
      else totalDays)"
  by pat_completeness auto
termination
  by (relation "measure (\<lambda>(tz, c, e, n). nat (e - c + 1))")
     (auto simp: setDate_next msPerDay_def)

declare calculateDays_loop.simps [simp del]

definition calculateDays :: "int \<Rightarrow> iso_date \<Rightarrow> iso_date \<Rightarrow> int" where
  "calculateDays tz startDate endDate =
     calculateDays_loop tz (Date_parse startDate) (Date_parse endDate) 0"

subsection \<open>Decimal strings\<close>

datatype error = DecimalError

definition digit_of :: "char \<Rightarrow> int option" where
  "digit_of c =
     (let n = (of_char c :: int) in if 48 \<le> n \<and> n \<le> 57 then Some (n - 48) else None)"

fun take_digits :: "string \<Rightarrow> int list \<times> string" where
  "take_digits [] = ([], [])"
| "take_digits (c # cs) =
     (case digit_of c of
        None \<Rightarrow> ([], c # cs)
      | Some d \<Rightarrow> (case take_digits cs of (ds, r) \<Rightarrow> (d # ds, r)))"

definition int_of_digits :: "int list \<Rightarrow> int" where
  "int_of_digits ds = foldl (\<lambda>a d. 10 * a + d) 0 ds"

definition take_sign :: "string \<Rightarrow> real \<times> string" where
  "take_sign s =
     (case s of
        [] \<Rightarrow> (1, [])
      | c # cs \<Rightarrow> if c = CHR ''-'' then (-1, cs) else if c = CHR ''+'' then (1, cs) else (1, s))"

text \<open>The exponent part \<^verbatim>\<open>e[+-]?\d+\<close> at the head of a string, if there is one.\<close>

definition parse_exponent :: "string \<Rightarrow> (real \<times> string) option" where
  "parse_exponent s =
     (case s of
        [] \<Rightarrow> None
      | c # cs \<Rightarrow>
          if c = CHR ''e'' \<or> c = CHR ''E''
          then (case take_sign cs of
                  (sg, r) \<Rightarrow>
                    (case take_digits r of
                       (ds, r') \<Rightarrow>
                         if ds = [] then None
                         else Some (if sg < 0 then 1 / 10 ^ nat (int_of_digits ds)
                                    else 10 ^ nat (int_of_digits ds), r')))
          else None)"

text \<open>
  The longest prefix of a string that is an unsigned decimal numeral
  \<^verbatim>\<open>(\d+(\.\d*)?|\.\d+)(e[+-]?\d+)?\<close>, with its value and the rest of the string.
\<close>

definition parse_unsigned :: "string \<Rightarrow> (real \<times> string) option" where
  "parse_unsigned s =
     (case take_digits s of
        (ip, r1) \<Rightarrow>
          (case (case r1 of
                   [] \<Rightarrow> ([], r1)
                 | c # cs \<Rightarrow>
                     if c = CHR ''.'' \<and> (ip \<noteq> [] \<or> fst (take_digits cs) \<noteq> [])
                     then take_digits cs else ([], r1)) of
             (fp, r2) \<Rightarrow>
               if ip = [] \<and> fp = [] then None
               else (let m = real_of_int (int_of_digits ip)
                             + real_of_int (int_of_digits fp) / 10 ^ length fp
                     in case parse_exponent r2 of
                          None \<Rightarrow> Some (m, r2)
                        | Some (f, r3) \<Rightarrow> Some (m * f, r3))))"

text \<open>
  \<^verbatim>\<open>new Decimal(s)\<close> for a string: an optional sign and a decimal numeral that is the
  whole string; anything else throws. (The spellings \<^verbatim>\<open>Infinity\<close>, \<^verbatim>\<open>NaN\<close> and the
  binary, octal and hexadecimal prefixes, which decimal.js also reads, are not numbers of
  the model.)
\<close>

definition Decimal_new :: "string \<Rightarrow> error + real" where
  "Decimal_new s =
     (case take_sign s of
        (sg, body) \<Rightarrow>
          (case parse_unsigned body of
             None \<Rightarrow> Inl DecimalError
           | Some (v, r) \<Rightarrow> if r = [] then Inr (sg * v) else Inl DecimalError))"

definition is_space :: "char \<Rightarrow> bool" where
  "is_space c \<longleftrightarrow> c = CHR '' '' \<or> c = CHR 0x09 \<or> c = CHR 0x0A \<or> c = CHR 0x0D"

text \<open>
  \<^verbatim>\<open>parseFloat(s)\<close>: leading white space is dropped, then the longest numeric prefix is
  read; \<open>None\<close> is \<^verbatim>\<open>NaN\<close>. The value is exact (the rounding to a double is not
  modelled).
\<close>

definition parseFloat :: "string \<Rightarrow> real option" where
  "parseFloat s =
     (case take_sign (dropWhile is_space s) of
        (sg, body) \<Rightarrow>
          (case parse_unsigned body of
             None \<Rightarrow> None
           | Some (v, r) \<Rightarrow> Some (sg * v)))"

subsection \<open>Tiers and the tier splitter\<close>

record InterestTier =
  tier_min :: string
  tier_max :: string
  rate :: string

record TierAllocation = InterestTier +
  amount :: real

record TierResult = TierAllocation +
  interest :: real

text \<open>
  The fields \<^verbatim>\<open>min\<close> and \<^verbatim>\<open>max\<close> of the source are \<open>tier_min\<close> and \<open>tier_max\<close> here
  (\<open>min\<close> and \<open>max\<close> are the order operations of HOL). \<open>TierAllocation\<close> is the
  element type of the table's splitter, \<open>TierResult\<close> that of the engine's.
\<close>

text \<open>
  The comparator \<^verbatim>\<open>(a, b) => parseFloat(a.min) - parseFloat(b.min)\<close>. A \<^verbatim>\<open>NaN\<close>
  result counts as 0 in \<^verbatim>\<open>Array.prototype.sort\<close>.
\<close>

definition compare_min :: "InterestTier \<Rightarrow> InterestTier \<Rightarrow> real" where
  "compare_min a b =
     (case (parseFloat (tier_min a), parseFloat (tier_min b)) of
        (Some x, Some y) \<Rightarrow> x - y
      | _ \<Rightarrow> 0)"

text \<open>
  \<^verbatim>\<open>[...tiers].sort(cmp)\<close> is a stable sort, modelled as a stable insertion sort. With
  a \<^verbatim>\<open>NaN\<close> key the comparator is not consistent and ECMA-262 leaves the order to the
  implementation; no statement below depends on the order of such a list.
\<close>

fun insort_tier :: "InterestTier \<Rightarrow> InterestTier list \<Rightarrow> InterestTier list" where
  "insort_tier x [] = [x]"
| "insort_tier x (y # ys) =
     (if compare_min x y \<le> 0 then x # y # ys else y # insort_tier x ys)"

definition sortedTiers :: "InterestTier list \<Rightarrow> InterestTier list" where
  "sortedTiers tiers = foldr insort_tier tiers []"

text \<open>\<^verbatim>\<open>tier.max ? new Decimal(tier.max) : null\<close>: the empty string is falsy.\<close>

definition parse_max :: "string \<Rightarrow> error + real option" where
  "parse_max s =
     (if s = [] then Inr None
      else case Decimal_new s of Inl e \<Rightarrow> Inl e | Inr v \<Rightarrow> Inr (Some v))"

text \<open>
  The \<^verbatim>\<open>for (const tier of sortedTiers)\<close> loop of the engine's splitter.
  \<open>processedAmount\<close> and \<open>result\<close> are the loop's two variables; \<^verbatim>\<open>break\<close> returns
  the result, \<^verbatim>\<open>continue\<close> goes on with the rest of the list.
\<close>

fun split_loop :: "real \<Rightarrow> real \<Rightarrow> TierResult list \<Rightarrow> InterestTier list \<Rightarrow> error + TierResult list" where
  "split_loop totalAmount processedAmount result [] = Inr result"
| "split_loop totalAmount processedAmount result (tier # rest) =
     (case Decimal_new (tier_min tier) of
        Inl e \<Rightarrow> Inl e
      | Inr tierMin \<Rightarrow>
          (case parse_max (tier_max tier) of
             Inl e \<Rightarrow> Inl e
           | Inr tierMax \<Rightarrow>
               if processedAmount \<ge> totalAmount then Inr result
               else if totalAmount < tierMin
               then split_loop totalAmount processedAmount result rest
               else (let tierAmount =
                           (case tierMax of
                              Some mx \<Rightarrow> min (mx - processedAmount) (totalAmount - processedAmount)
                            | None \<Rightarrow>
                                if totalAmount \<ge> tierMin then totalAmount - processedAmount
                                else 0)
                     in if tierAmount > 0
                        then split_loop totalAmount (processedAmount + tierAmount)
                               (result @ [\<lparr>tier_min = tier_min tier, tier_max = tier_max tier,
                                           rate = rate tier, amount = tierAmount, interest = 0\<rparr>])
                               rest
                        else split_loop totalAmount processedAmount result rest)))"

text \<open>The splitter on a \<^verbatim>\<open>Decimal\<close> amount (the body after \<^verbatim>\<open>new Decimal(amount)\<close>).\<close>

definition splitDecimalByTiers :: "real \<Rightarrow> InterestTier list \<Rightarrow> error + TierResult list" where
  "splitDecimalByTiers totalAmount tiers = split_loop totalAmount 0 [] (sortedTiers tiers)"

definition splitAmountByTiers :: "string \<Rightarrow> InterestTier list \<Rightarrow> error + TierResult list" where
  "splitAmountByTiers amountStr tiers =
     (case Decimal_new amountStr of
        Inl e \<Rightarrow> Inl e
      | Inr totalAmount \<Rightarrow> splitDecimalByTiers totalAmount tiers)"

subsection \<open>The tier splitter of the day-by-day table\<close>

text \<open>
  The table component keeps its own copy of \<^verbatim>\<open>splitAmountByTiers\<close>. It differs from
  the engine's in three places: the amount is checked before it is parsed, the sort key
  is \<^verbatim>\<open>parseFloat(a.min || '0')\<close>, and the loop starts with
  \<^verbatim>\<open>if (!tier.min || !tier.rate) continue\<close>.
\<close>

definition compare_min_daily :: "InterestTier \<Rightarrow> InterestTier \<Rightarrow> real" where
  "compare_min_daily a b =
     (case (parseFloat (if tier_min a = [] then ''0'' else tier_min a),
            parseFloat (if tier_min b = [] then ''0'' else tier_min b)) of
        (Some x, Some y) \<Rightarrow> x - y
      | _ \<Rightarrow> 0)"

fun insort_tier_daily :: "InterestTier \<Rightarrow> InterestTier list \<Rightarrow> InterestTier list" where
  "insort_tier_daily x [] = [x]"
| "insort_tier_daily x (y # ys) =
     (if compare_min_daily x y \<le> 0 then x # y # ys else y # insort_tier_daily x ys)"

fun split_loop_daily ::
  "real \<Rightarrow> real \<Rightarrow> TierAllocation list \<Rightarrow> InterestTier list \<Rightarrow> error + TierAllocation list" where
  "split_loop_daily totalAmount processedAmount result [] = Inr result"
| "split_loop_daily totalAmount processedAmount result (tier # rest) =
     (if tier_min tier = [] \<or> rate tier = []
      then split_loop_daily totalAmount processedAmount result rest
      else case Decimal_new (tier_min tier) of
        Inl e \<Rightarrow> Inl e
      | Inr tierMin \<Rightarrow>
          (case parse_max (tier_max tier) of
             Inl e \<Rightarrow> Inl e
           | Inr tierMax \<Rightarrow>
               if processedAmount \<ge> totalAmount then Inr result
               else if totalAmount < tierMin
               then split_loop_daily totalAmount processedAmount result rest
               else (let tierAmount =
                           (case tierMax of
                              Some mx \<Rightarrow> min (mx - processedAmount) (totalAmount - processedAmount)
                            | None \<Rightarrow>
                                if totalAmount \<ge> tierMin then totalAmount - processedAmount
                                else 0)
                     in if tierAmount > 0
                        then split_loop_daily totalAmount (processedAmount + tierAmount)
                               (result @ [\<lparr>tier_min = tier_min tier, tier_max = tier_max tier,
                                           rate = rate tier, amount = tierAmount\<rparr>])
                               rest
                        else split_loop_daily totalAmount processedAmount result rest)))"

definition splitAmountByTiers_daily :: "string \<Rightarrow> InterestTier list \<Rightarrow> error + TierAllocation list" where
  "splitAmountByTiers_daily amountStr tiers =
     (if amountStr = [] \<or> dropWhile is_space amountStr = [] \<or> parseFloat amountStr = None
      then Inr []
      else case Decimal_new amountStr of
        Inl e \<Rightarrow> Inl e
      | Inr totalAmount \<Rightarrow>
          split_loop_daily totalAmount 0 [] (foldr insort_tier_daily tiers []))"

subsection \<open>Period interest\<close>

text \<open>
  \<^verbatim>\<open>Decimal.pow(x, y)\<close> with a real exponent. Any base to the power 0 is 1; for a
  positive base it is the real power. (For a negative base and a fractional exponent
  decimal.js gives \<^verbatim>\<open>NaN\<close>, which is not a number of the model: rates below -100
  per cent are outside it.)
\<close>

definition Decimal_pow :: "real \<Rightarrow> real \<Rightarrow> real" where
  "Decimal_pow x y = (if y = 0 then 1 else x powr y)"

text \<open>
  Both formulas take the principal as the \<^verbatim>\<open>Decimal\<close> whose \<^verbatim>\<open>toString\<close> the
  caller passes, and the rate as the tier's string.
\<close>

definition calculateSimpleInterest :: "real \<Rightarrow> string \<Rightarrow> int \<Rightarrow> error + real" where
  "calculateSimpleInterest P rateStr ds =
     (case Decimal_new rateStr of
        Inl e \<Rightarrow> Inl e
      | Inr r \<Rightarrow> (let R = r / 100; D = real_of_int ds in Inr (P * R * (D / 365))))"

definition calculateCompoundInterest :: "real \<Rightarrow> string \<Rightarrow> int \<Rightarrow> error + real" where
  "calculateCompoundInterest P rateStr ds =
     (case Decimal_new rateStr of
        Inl e \<Rightarrow> Inl e
      | Inr r \<Rightarrow>
          (let R = r / 100; years = real_of_int ds / 365; A = P * Decimal_pow (1 + R) years
           in Inr (A - P)))"

datatype interestType = Simple | Compound

datatype applyType = Daily | Monthly | Biannually | Annually

definition periodInterest :: "interestType \<Rightarrow> real \<Rightarrow> string \<Rightarrow> int \<Rightarrow> error + real" where
  "periodInterest iType P rateStr ds =
     (if iType = Simple then calculateSimpleInterest P rateStr ds
      else calculateCompoundInterest P rateStr ds)"

subsection \<open>The month segments\<close>

lemma MakeDay_next_month:
  assumes "0 \<le> m" "m \<le> 11"
  shows "MakeDay y m dt + 28 \<le> MakeDay y (m + 1) dt \<and> MakeDay y (m + 1) dt \<le> MakeDay y m dt + 31"
proof -
  from assms have "m = 0 \<or> m = 1 \<or> m = 2 \<or> m = 3 \<or> m = 4 \<or> m = 5 \<or> m = 6 \<or> m = 7
      \<or> m = 8 \<or> m = 9 \<or> m = 10 \<or> m = 11" by arith
  then show ?thesis
    using DayFromYear_Suc[of y] DaysInYear_range[of y] DaysInYear_range[of "y + 1"]
    by (elim disjE) (simp_all add: MakeDay_def monthOffset_def DaysInYear_def)
qed

lemma setMonth_next: "t + 28 * msPerDay \<le> setMonth tz t (getMonth tz t + 1)"
proof -
  define L where "L = Day (t + tz)"
  have "MakeDay (YearFromDay L) (MonthFromDay L) (DateFromDay L) + 28
      \<le> MakeDay (YearFromDay L) (MonthFromDay L + 1) (DateFromDay L)"
    using MakeDay_next_month[of "MonthFromDay L"] MonthFromDay_range[of L] by simp
  then have "L + 28 \<le> MakeDay (YearFromDay L) (MonthFromDay L + 1) (DateFromDay L)"
    using MakeDay_fields[of L 0] by simp
  then have "(L + 28) * msPerDay
      \<le> MakeDay (YearFromDay L) (MonthFromDay L + 1) (DateFromDay L) * msPerDay"
    by (simp add: msPerDay_def)
  moreover have "L * msPerDay + TimeWithinDay (t + tz) = t + tz"
    using MakeDate_split[of "t + tz"] by (simp add: MakeDate_def L_def)
  ultimately show ?thesis
    by (simp add: setMonth_def getMonth_def Let_def MakeDate_def L_def[symmetric] algebra_simps)
qed

definition monthNames :: "string list" where
  "monthNames = [''January'', ''February'', ''March'', ''April'', ''May'', ''June'', ''July'',
     ''August'', ''September'', ''October'', ''November'', ''December'']"

fun show_nat :: "nat \<Rightarrow> string" where
  "show_nat n =
     (if n < 10 then [''0123456789'' ! n]
      else show_nat (n div 10) @ [''0123456789'' ! (n mod 10)])"

declare show_nat.simps [simp del]

text \<open>
  \<^verbatim>\<open>toLocaleDateString('en-US', {year: 'numeric', month: 'long'})\<close>, for instance
  \<^verbatim>\<open>January 2024\<close>. (For a year before 1 only the number is kept, without the era.)
\<close>

definition displayMonthOf :: "int \<Rightarrow> time \<Rightarrow> string" where
  "displayMonthOf tz t =
     monthNames ! nat (getMonth tz t) @ '' '' @ show_nat (nat \<bar>getFullYear tz t\<bar>)"

record MonthInfo =
  monthStart :: time
  monthEnd :: time
  displayMonth :: string

text \<open>
  The \<^verbatim>\<open>while (tempDate <= end)\<close> loop that fills \<^verbatim>\<open>monthlyData\<close>; each iteration
  pushes one segment and moves \<open>tempDate\<close> on by \<^verbatim>\<open>setMonth(getMonth() + 1)\<close>.
\<close>

function monthlyData_loop :: "int \<Rightarrow> time \<Rightarrow> time \<Rightarrow> MonthInfo list" where
  "monthlyData_loop tz tempDate end' =
     (if tempDate \<le> end'
      then (let mStart = tempDate;
                mEnd = Date_local tz (getFullYear tz mStart) (getMonth tz mStart + 1) 0;
                actualEnd = (if mEnd > end' then end' else mEnd)
            in \<lparr>monthStart = mStart, monthEnd = actualEnd,
                 displayMonth = displayMonthOf tz mStart\<rparr>
               # monthlyData_loop tz (setMonth tz tempDate (getMonth tz tempDate + 1)) end')
      else [])"
  by pat_completeness auto
termination
proof (relation "measure (\<lambda>(tz, t, e). nat (e - t + 1))")
  show "wf (measure (\<lambda>(tz, t, e). nat (e - t + 1)))" by simp
next
  fix tz tempDate end' :: int
  assume "tempDate \<le> end'"
  then show "((tz, setMonth tz tempDate (getMonth tz tempDate + 1), end'), (tz, tempDate, end'))
      \<in> measure (\<lambda>(tz, t, e). nat (e - t + 1))"
    using setMonth_next[of tempDate tz] by (simp add: msPerDay_def)
qed

declare monthlyData_loop.simps [simp del]

subsection \<open>The ledger\<close>

record MonthlyBreakdown =
  date :: string
  days :: int
  balance :: real
  monthInterest :: real
  cumulative :: real
  accrued :: real
  applied :: bool

text \<open>
  The field \<open>monthInterest\<close> is the field \<^verbatim>\<open>interest\<close> of \<^verbatim>\<open>MonthlyBreakdown\<close>
  (the name \<open>interest\<close> is taken by \<open>TierResult\<close>). The strings of the record are the
  numbers they spell.
\<close>

record CalculationResult =
  totalInterest :: real
  finalAmount :: real
  accruedInterest :: real
  breakdown :: "MonthlyBreakdown list"
  tierResults :: "TierResult list"
  totalDays :: int

text \<open>The variables that the month loop of \<^verbatim>\<open>calculateInterest\<close> updates.\<close>

record engine_state =
  currentBalance :: real
  cumulativeInterest :: real
  accruedSoFar :: real
  entries :: "MonthlyBreakdown list"

fun sum_tier_interest :: "interestType \<Rightarrow> int \<Rightarrow> real \<Rightarrow> TierResult list \<Rightarrow> error + real" where
  "sum_tier_interest iType ds acc [] = Inr acc"
| "sum_tier_interest iType ds acc (tierData # rest) =
     (case periodInterest iType (amount tierData) (rate tierData) ds of
        Inl e \<Rightarrow> Inl e
      | Inr i \<Rightarrow> sum_tier_interest iType ds (acc + i) rest)"

definition shouldApply :: "int \<Rightarrow> applyType \<Rightarrow> time \<Rightarrow> time \<Rightarrow> bool" where
  "shouldApply tz aType mEnd end' =
     (case aType of
        Daily \<Rightarrow> True
      | Monthly \<Rightarrow> Date_local tz (getFullYear tz mEnd) (getMonth tz mEnd + 1) 1 \<le> end'
      | Biannually \<Rightarrow> getMonth tz mEnd = 5 \<or> getMonth tz mEnd = 11
      | Annually \<Rightarrow> getMonth tz mEnd = 11)"

definition processMonth ::
  "int \<Rightarrow> time \<Rightarrow> InterestTier list \<Rightarrow> interestType \<Rightarrow> applyType \<Rightarrow> engine_state \<Rightarrow> MonthInfo
     \<Rightarrow> error + engine_state" where
  "processMonth tz end' tiers iType aType st monthInfo =
     (let daysInMonth =
            calculateDays tz (toISODate (monthStart monthInfo)) (toISODate (monthEnd monthInfo))
      in case splitDecimalByTiers (currentBalance st) tiers of
           Inl e \<Rightarrow> Inl e
         | Inr tierSplit \<Rightarrow>
             (case sum_tier_interest iType daysInMonth 0 tierSplit of
                Inl e \<Rightarrow> Inl e
              | Inr mi \<Rightarrow>
                  if shouldApply tz aType (monthEnd monthInfo) end'
                  then (let totalApplyInterest = accruedSoFar st + mi;
                            cum = cumulativeInterest st + totalApplyInterest;
                            bal = currentBalance st + totalApplyInterest
                        in Inr \<lparr>currentBalance = bal, cumulativeInterest = cum,
                                accruedSoFar = 0,
                                entries = entries st @
                                  [\<lparr>date = displayMonth monthInfo, days = daysInMonth,
                                    balance = bal, monthInterest = mi, cumulative = cum,
                                    accrued = 0, applied = True\<rparr>]\<rparr>)
                  else (let acc = accruedSoFar st + mi
                        in Inr \<lparr>currentBalance = currentBalance st,
                                cumulativeInterest = cumulativeInterest st,
                                accruedSoFar = acc,
                                entries = entries st @
                                  [\<lparr>date = displayMonth monthInfo, days = daysInMonth,
                                    balance = currentBalance st, monthInterest = mi,
                                    cumulative = cumulativeInterest st + acc,
                                    accrued = acc, applied = False\<rparr>]\<rparr>)))"

fun processMonths ::
  "int \<Rightarrow> time \<Rightarrow> InterestTier list \<Rightarrow> interestType \<Rightarrow> applyType \<Rightarrow> engine_state
     \<Rightarrow> MonthInfo list \<Rightarrow> error + engine_state" where
  "processMonths tz end' tiers iType aType st [] = Inr st"
| "processMonths tz end' tiers iType aType st (monthInfo # rest) =
     (case processMonth tz end' tiers iType aType st monthInfo of
        Inl e \<Rightarrow> Inl e
      | Inr st' \<Rightarrow> processMonths tz end' tiers iType aType st' rest)"

text \<open>The \<^verbatim>\<open>tierSplit.map\<close> that fills in each tier's interest over the whole period.\<close>

fun tierResults_map :: "interestType \<Rightarrow> int \<Rightarrow> TierResult list \<Rightarrow> error + TierResult list" where
  "tierResults_map iType ds [] = Inr []"
| "tierResults_map iType ds (tierData # rest) =
     (case periodInterest iType (amount tierData) (rate tierData) ds of
        Inl e \<Rightarrow> Inl e
      | Inr i \<Rightarrow>
          (case tierResults_map iType ds rest of
             Inl e \<Rightarrow> Inl e
           | Inr trs \<Rightarrow> Inr (tierData\<lparr>interest := i\<rparr> # trs)))"

definition monthlyData :: "int \<Rightarrow> time \<Rightarrow> time \<Rightarrow> MonthInfo list" where
  "monthlyData tz start end' =
     monthlyData_loop tz (Date_local tz (getFullYear tz start) (getMonth tz start) 1) end'"

definition calculateInterest ::
  "int \<Rightarrow> string \<Rightarrow> iso_date \<Rightarrow> iso_date \<Rightarrow> InterestTier list \<Rightarrow> interestType \<Rightarrow> applyType
     \<Rightarrow> error + CalculationResult" where
  "calculateInterest tz depositAmount startDate endDate tiers iType aType =
     (case Decimal_new depositAmount of
        Inl e \<Rightarrow> Inl e
      | Inr deposit \<Rightarrow>
          (let start = Date_parse startDate;
               end' = Date_parse endDate;
               tDays = calculateDays tz startDate endDate
           in case processMonths tz end' tiers iType aType
                     \<lparr>currentBalance = deposit, cumulativeInterest = 0, accruedSoFar = 0,
                      entries = []\<rparr>
                     (monthlyData tz start end') of
                Inl e \<Rightarrow> Inl e
              | Inr st \<Rightarrow>
                  (case splitAmountByTiers depositAmount tiers of
                     Inl e \<Rightarrow> Inl e
                   | Inr tierSplit \<Rightarrow>
                       (case tierResults_map iType tDays tierSplit of
                          Inl e \<Rightarrow> Inl e
                        | Inr trs \<Rightarrow>
                            Inr \<lparr>totalInterest = cumulativeInterest st + accruedSoFar st,
                                 finalAmount = currentBalance st + accruedSoFar st,
                                 accruedInterest = accruedSoFar st,
                                 breakdown = entries st,
                                 tierResults = trs,
                                 totalDays = tDays\<rparr>))))"

section \<open>Properties\<close>

subsection \<open>Well-formed tiers; a valid request returns a result\<close>

text \<open>A string that \<^verbatim>\<open>new Decimal\<close> reads, and a tier whose bounds it reads.\<close>

definition is_numeric :: "string \<Rightarrow> bool" where
  "is_numeric s = (case Decimal_new s of Inl e \<Rightarrow> False | Inr v \<Rightarrow> True)"

definition wellformed_bounds :: "InterestTier \<Rightarrow> bool" where
  "wellformed_bounds t \<longleftrightarrow> is_numeric (tier_min t) \<and> (tier_max t = [] \<or> is_numeric (tier_max t))"

lemma is_numeric_iff: "is_numeric s \<longleftrightarrow> (\<exists>v. Decimal_new s = Inr v)"
  by (cases "Decimal_new s") (simp_all add: is_numeric_def)

lemma wellformed_bounds_parse:
  assumes "wellformed_bounds t"
  shows "\<exists>lo mx. Decimal_new (tier_min t) = Inr lo \<and> parse_max (tier_max t) = Inr mx"
  using assms by (auto simp: wellformed_bounds_def is_numeric_iff parse_max_def)

lemma set_insort_tier: "set (insort_tier x ys) = insert x (set ys)"
  by (induction ys) auto

lemma set_sortedTiers: "set (sortedTiers tiers) = set tiers"
  by (induction tiers) (simp_all add: sortedTiers_def set_insort_tier)


definition wellformed_tier :: "InterestTier \<Rightarrow> bool" where
  "wellformed_tier t \<longleftrightarrow> wellformed_bounds t \<and> is_numeric (rate t)"

lemma split_loop_ok:
  assumes "\<forall>t\<in>set ts. wellformed_tier t" "\<forall>x\<in>set result. is_numeric (rate x)"
  shows "\<exists>res. split_loop tot processed result ts = Inr res \<and> (\<forall>x\<in>set res. is_numeric (rate x))"
  using assms
proof (induction ts arbitrary: processed result)
  case Nil
  then show ?case by simp
next
  case (Cons t ts)
  from Cons.prems(1) have wt: "wellformed_bounds t" "is_numeric (rate t)"
    and rest: "\<forall>t\<in>set ts. wellformed_tier t"
    by (simp_all add: wellformed_tier_def)
  obtain lo mx where p: "Decimal_new (tier_min t) = Inr lo" "parse_max (tier_max t) = Inr mx"
    using wellformed_bounds_parse[OF wt(1)] by auto
  define a where "a = (case mx of Some m \<Rightarrow> min (m - processed) (tot - processed)
                        | None \<Rightarrow> if tot \<ge> lo then tot - processed else 0)"
  define result' where "result' = result @ [\<lparr>tier_min = tier_min t, tier_max = tier_max t,
      rate = rate t, amount = a, interest = 0\<rparr>]"
  have r': "\<forall>x\<in>set result'. is_numeric (rate x)"
    using Cons.prems(2) wt(2) by (auto simp: result'_def)
  have eq: "split_loop tot processed result (t # ts) =
      (if processed \<ge> tot then Inr result
       else if tot < lo then split_loop tot processed result ts
       else if a > 0 then split_loop tot (processed + a) result' ts
       else split_loop tot processed result ts)"
    by (simp add: p a_def result'_def Let_def)
  show ?case
    unfolding eq
    using Cons.IH[OF rest Cons.prems(2), of processed] Cons.IH[OF rest r', of "processed + a"]
      Cons.prems(2)
    by auto
qed

lemma splitDecimalByTiers_ok:
  assumes "\<forall>t\<in>set tiers. wellformed_tier t"
  shows "\<exists>res. splitDecimalByTiers tot tiers = Inr res \<and> (\<forall>x\<in>set res. is_numeric (rate x))"
  unfolding splitDecimalByTiers_def
  using assms by (intro split_loop_ok) (simp_all add: set_sortedTiers)

lemma periodInterest_ok:
  assumes "is_numeric rateStr"
  shows "\<exists>v. periodInterest iType P rateStr ds = Inr v"
proof -
  from assms obtain r where r: "Decimal_new rateStr = Inr r" by (auto simp: is_numeric_iff)
  have "calculateSimpleInterest P rateStr ds = Inr (P * (r / 100) * (real_of_int ds / 365))"
    by (simp only: calculateSimpleInterest_def r sum.case Let_def)
  moreover have "calculateCompoundInterest P rateStr ds
      = Inr (P * Decimal_pow (1 + r / 100) (real_of_int ds / 365) - P)"
    by (simp only: calculateCompoundInterest_def r sum.case Let_def)
  moreover have "periodInterest iType P rateStr ds = calculateSimpleInterest P rateStr ds
      \<or> periodInterest iType P rateStr ds = calculateCompoundInterest P rateStr ds"
    by (simp add: periodInterest_def)
  ultimately show ?thesis by metis
qed

lemma sum_tier_interest_ok:
  assumes "\<forall>x\<in>set xs. is_numeric (rate x)"
  shows "\<exists>v. sum_tier_interest iType ds acc xs = Inr v"
  using assms
proof (induction xs arbitrary: acc)
  case Nil
  then show ?case by simp
next
  case (Cons x xs)
  then obtain i where "periodInterest iType (amount x) (rate x) ds = Inr i"
    using periodInterest_ok[of "rate x" iType "amount x" ds] by auto
  with Cons show ?case by simp
qed

lemma tierResults_map_ok:
  assumes "\<forall>x\<in>set xs. is_numeric (rate x)"
  shows "\<exists>trs. tierResults_map iType ds xs = Inr trs"
  using assms
proof (induction xs)
  case Nil
  then show ?case by simp
next
  case (Cons x xs)
  then obtain i trs where "periodInterest iType (amount x) (rate x) ds = Inr i"
    "tierResults_map iType ds xs = Inr trs"
    using periodInterest_ok[of "rate x" iType "amount x" ds] by auto
  then show ?case by simp
qed

lemma processMonth_ok:
  assumes "\<forall>t\<in>set tiers. wellformed_tier t"
  shows "\<exists>st'. processMonth tz end' tiers iType aType st monthInfo = Inr st'"
proof -
  obtain res where r: "splitDecimalByTiers (currentBalance st) tiers = Inr res"
    "\<forall>x\<in>set res. is_numeric (rate x)"
    using splitDecimalByTiers_ok[OF assms] by blast
  obtain v where "sum_tier_interest iType
      (calculateDays tz (toISODate (monthStart monthInfo)) (toISODate (monthEnd monthInfo))) 0 res
      = Inr v"
    using sum_tier_interest_ok[OF r(2)] by blast
  with r(1) show ?thesis by (simp add: processMonth_def Let_def)
qed

lemma processMonths_ok:
  assumes "\<forall>t\<in>set tiers. wellformed_tier t"
  shows "\<exists>st'. processMonths tz end' tiers iType aType st months = Inr st'"
proof (induction months arbitrary: st)
  case Nil
  then show ?case by simp
next
  case (Cons m months)
  obtain st1 where "processMonth tz end' tiers iType aType st m = Inr st1"
    using processMonth_ok[OF assms] by blast
  with Cons show ?case by simp
qed

lemma calculateInterest_ok:
  assumes "Decimal_new depositAmount = Inr P" "\<forall>t\<in>set tiers. wellformed_tier t"
  shows "\<exists>st trs.
      processMonths tz (Date_parse endDate) tiers iType aType
        \<lparr>currentBalance = P, cumulativeInterest = 0, accruedSoFar = 0, entries = []\<rparr>
        (monthlyData tz (Date_parse startDate) (Date_parse endDate)) = Inr st
      \<and> calculateInterest tz depositAmount startDate endDate tiers iType aType
          = Inr \<lparr>totalInterest = cumulativeInterest st + accruedSoFar st,
                 finalAmount = currentBalance st + accruedSoFar st,
                 accruedInterest = accruedSoFar st,
                 breakdown = entries st,
                 tierResults = trs,
                 totalDays = calculateDays tz startDate endDate\<rparr>"
proof -
  obtain st where s: "processMonths tz (Date_parse endDate) tiers iType aType
        \<lparr>currentBalance = P, cumulativeInterest = 0, accruedSoFar = 0, entries = []\<rparr>
        (monthlyData tz (Date_parse startDate) (Date_parse endDate)) = Inr st"
    using processMonths_ok[OF assms(2)] by blast
  obtain res where r: "splitDecimalByTiers P tiers = Inr res" "\<forall>x\<in>set res. is_numeric (rate x)"
    using splitDecimalByTiers_ok[OF assms(2)] by blast
  obtain trs where t: "tierResults_map iType (calculateDays tz startDate endDate) res = Inr trs"
    using tierResults_map_ok[OF r(2)] by blast
  show ?thesis
    using s r(1) t assms(1)
    by (simp add: calculateInterest_def splitAmountByTiers_def Let_def)
qed

subsection \<open>The inclusive day count\<close>








subsection \<open>The day counts of the ledger\<close>

text \<open>
  Claim C1 says that the first segment starts at \<open>startDate\<close>, so that the day counts of
  the ledger add up to \<open>totalDays\<close>. The month loop starts at
  \<^verbatim>\<open>new Date(start.getFullYear(), start.getMonth(), 1)\<close>, the first day of the start
  month, and only the end of the last segment is cut to the range. For a deposit from
  2024-01-15 to 2024-02-15 (host in UTC) the ledger counts 31 and 15 days, 46 in all,
  while \<open>totalDays\<close> is 32.
\<close>

theorem ledger_days_from_first_of_month:
  "(case calculateInterest 0 ''1000000.00''
           \<lparr>year = 2024, month = 1, day = 15\<rparr> \<lparr>year = 2024, month = 2, day = 15\<rparr>
           [\<lparr>tier_min = ''1.00'', tier_max = ''1000000.00'', rate = ''2.00''\<rparr>,
            \<lparr>tier_min = ''1000000.01'', tier_max = '''', rate = ''0.50''\<rparr>]
           Simple Monthly of
      Inl e \<Rightarrow> False
    | Inr r \<Rightarrow> map days (breakdown r) = [31, 15] \<and> sum_list (map days (breakdown r)) = 46
               \<and> totalDays r = 32)"
  by code_simp

text \<open>
  The segments are built with the local-time constructor while the two dates are read
  as UTC, so the ledger also depends on the time zone of the host. For a deposit from
  2024-01-01 to 2024-02-15 (46 days) the ledger counts 31 and 15 days on a host in UTC,
  31 and 16 days at UTC+7, and at UTC-5 it begins with a segment for December 2023.
\<close>

lemma ledger_days_utc:
  "(case calculateInterest 0 ''1000''
           \<lparr>year = 2024, month = 1, day = 1\<rparr> \<lparr>year = 2024, month = 2, day = 15\<rparr>
           [\<lparr>tier_min = ''0'', tier_max = '''', rate = ''5''\<rparr>] Simple Monthly of
      Inl e \<Rightarrow> False
    | Inr r \<Rightarrow> map days (breakdown r) = [31, 15] \<and> totalDays r = 46)"
  by code_simp

lemma ledger_days_utc_plus_7:
  "(case calculateInterest 25200000 ''1000''
           \<lparr>year = 2024, month = 1, day = 1\<rparr> \<lparr>year = 2024, month = 2, day = 15\<rparr>
           [\<lparr>tier_min = ''0'', tier_max = '''', rate = ''5''\<rparr>] Simple Monthly of
      Inl e \<Rightarrow> False
    | Inr r \<Rightarrow> map days (breakdown r) = [31, 16] \<and> totalDays r = 46)"
  by code_simp

lemma ledger_days_utc_minus_5:
  "(case calculateInterest (- 18000000) ''1000''
           \<lparr>year = 2024, month = 1, day = 1\<rparr> \<lparr>year = 2024, month = 2, day = 15\<rparr>
           [\<lparr>tier_min = ''0'', tier_max = '''', rate = ''5''\<rparr>] Simple Monthly of
      Inl e \<Rightarrow> False
    | Inr r \<Rightarrow> map date (breakdown r) = [''December 2023'', ''January 2024'', ''February 2024'']
               \<and> map days (breakdown r) = [31, 31, 15] \<and> totalDays r = 46)"
  by code_simp

subsection \<open>Monthly cadence and the last segment\<close>

text \<open>
  Claim C2, as stated, fails. Under the monthly cadence a segment is applied when
  \<^verbatim>\<open>new Date(monthEnd.getFullYear(), monthEnd.getMonth() + 1, 1) <= end\<close>, and the
  first day of the month after the last segment is never inside the range. For a
  deposit from 2024-01-15 to 2024-02-29, the last day of February, the January segment
  is applied and the February segment is not.
\<close>

theorem monthly_last_day_of_month_counterexample:
  "(case calculateInterest 0 ''1000''
           \<lparr>year = 2024, month = 1, day = 15\<rparr> \<lparr>year = 2024, month = 2, day = 29\<rparr>
           [\<lparr>tier_min = ''0'', tier_max = '''', rate = ''5''\<rparr>] Simple Monthly of
      Inl e \<Rightarrow> False
    | Inr r \<Rightarrow> map applied (breakdown r) = [True, False])"
  by code_simp

lemma DaysInYear_cases: "DaysInYear y = 365 \<or> DaysInYear y = 366"
  by (simp add: DaysInYear_def)

lemma DayWithinYear_range:
  "0 \<le> DayWithinYear d \<and> DayWithinYear d < 365 + InLeapYear d"
proof -
  have "DayFromYear (YearFromDay d + 1) = DayFromYear (YearFromDay d) + DaysInYear (YearFromDay d)"
    by (rule DayFromYear_Suc)
  then show ?thesis
    using YearFromDay_bounds[of d] DaysInYear_cases[of "YearFromDay d"]
    by (auto simp: DayWithinYear_def InLeapYear_def)
qed

lemma MakeDay_first:
  assumes "0 \<le> m" "m \<le> 11"
  shows "MakeDay y m 1 = DayFromYear y + monthOffset (if DaysInYear y = 366 then 1 else 0) m"
  using assms by (simp add: MakeDay_def)

lemma MakeDay_first_next:
  assumes "0 \<le> m" "m \<le> 11"
  shows "MakeDay y (m + 1) 1 =
     (if m = 11 then DayFromYear y + DaysInYear y
      else DayFromYear y + monthOffset (if DaysInYear y = 366 then 1 else 0) (m + 1))"
proof (cases "m = 11")
  case True
  then show ?thesis by (simp add: MakeDay_def monthOffset_def DayFromYear_Suc)
next
  case False
  with assms have "(m + 1) div 12 = 0" "(m + 1) mod 12 = m + 1" by simp_all
  with False show ?thesis by (simp add: MakeDay_def)
qed

lemma MakeDay_date: "MakeDay y m dt = MakeDay y m 1 + dt - 1"
  by (simp add: MakeDay_def Let_def)

lemma MonthFromDay_bounds:
  "MakeDay (YearFromDay d) (MonthFromDay d) 1 \<le> d
   \<and> d < MakeDay (YearFromDay d) (MonthFromDay d + 1) 1"
proof -
  define w where "w = DayWithinYear d"
  define l where "l = InLeapYear d"
  define Y where "Y = YearFromDay d"
  have l: "l = (if DaysInYear Y = 366 then 1 else 0)" "l = 0 \<or> l = 1"
    by (simp_all add: l_def Y_def InLeapYear_def)
  have diy: "DaysInYear Y = 365 + l"
    using DaysInYear_cases[of Y] l(1) by auto
  have w: "0 \<le> w" "w < 365 + l" "d = DayFromYear Y + w"
    using DayWithinYear_range[of d] by (simp_all add: w_def l_def Y_def DayWithinYear_def)
  have M: "MonthFromDay d =
     (if w < 31 then 0 else if w < 59 + l then 1 else if w < 90 + l then 2
         else if w < 120 + l then 3 else if w < 151 + l then 4 else if w < 181 + l then 5
         else if w < 212 + l then 6 else if w < 243 + l then 7 else if w < 273 + l then 8
         else if w < 304 + l then 9 else if w < 334 + l then 10 else 11)"
    by (simp add: MonthFromDay_def Let_def w_def l_def)
  have r: "0 \<le> MonthFromDay d" "MonthFromDay d \<le> 11"
    using MonthFromDay_range[of d] by simp_all
  have lo: "MakeDay Y (MonthFromDay d) 1 = DayFromYear Y + monthOffset l (MonthFromDay d)"
    using MakeDay_first[OF r, of Y] l(1) by simp
  have hi: "MakeDay Y (MonthFromDay d + 1) 1 =
     (if MonthFromDay d = 11 then DayFromYear Y + (365 + l)
      else DayFromYear Y + monthOffset l (MonthFromDay d + 1))"
    using MakeDay_first_next[OF r, of Y] l(1) diy by simp
  have "monthOffset l (MonthFromDay d) \<le> w"
    using w(1) l(2) by (auto simp: M monthOffset_def)
  moreover have "w < (if MonthFromDay d = 11 then 365 + l else monthOffset l (MonthFromDay d + 1))"
    using w(2) l(2) by (auto simp: M monthOffset_def split: if_splits)
  ultimately show ?thesis
    unfolding Y_def[symmetric] lo hi using w(3) by (auto split: if_splits)
qed

lemma fields_of_day_in_month:
  assumes "0 \<le> m" "m \<le> 11" "MakeDay y m 1 \<le> d" "d < MakeDay y (m + 1) 1"
  shows "YearFromDay d = y \<and> MonthFromDay d = m"
proof -
  define l :: int where "l = (if DaysInYear y = 366 then 1 else 0)"
  have l: "l = 0 \<or> l = 1" by (simp add: l_def)
  have diy: "DaysInYear y = 365 + l"
    using DaysInYear_cases[of y] by (auto simp: l_def)
  have lo: "MakeDay y m 1 = DayFromYear y + monthOffset l m"
    using MakeDay_first[OF assms(1,2), of y] by (simp add: l_def)
  have hi: "MakeDay y (m + 1) 1 =
     (if m = 11 then DayFromYear y + (365 + l) else DayFromYear y + monthOffset l (m + 1))"
    using MakeDay_first_next[OF assms(1,2), of y] diy by (simp add: l_def)
  from assms(1,2) have mc: "m = 0 \<or> m = 1 \<or> m = 2 \<or> m = 3 \<or> m = 4 \<or> m = 5 \<or> m = 6 \<or> m = 7
      \<or> m = 8 \<or> m = 9 \<or> m = 10 \<or> m = 11" by arith
  define w where "w = d - DayFromYear y"
  have wlo: "monthOffset l m \<le> w" using assms(3) lo by (simp add: w_def)
  have whi: "w < (if m = 11 then 365 + l else monthOffset l (m + 1))"
    using assms(4) hi by (auto simp: w_def split: if_splits)
  have "0 \<le> w" "w < 365 + l"
    using wlo whi l mc by (auto simp: monthOffset_def split: if_splits)
  then have "DayFromYear y \<le> d" "d < DayFromYear (y + 1)"
    using diy by (simp_all add: w_def DayFromYear_Suc)
  then have Y: "YearFromDay d = y" by (rule YearFromDay_unique)
  then have dw: "DayWithinYear d = w" "InLeapYear d = l"
    by (simp_all add: DayWithinYear_def InLeapYear_def w_def l_def)
  have "MonthFromDay d = m"
    using wlo whi l mc
    by (auto simp: MonthFromDay_def Let_def dw monthOffset_def split: if_splits)
  with Y show ?thesis by simp
qed

lemma Day_mult: "Day (n * msPerDay) = n" "TimeWithinDay (n * msPerDay) = 0"
  by (simp_all add: Day_def TimeWithinDay_def msPerDay_def)

lemma Day_in_range:
  assumes "a * msPerDay \<le> t" "t < b * msPerDay"
  shows "a \<le> Day t \<and> Day t < b"
proof -
  have p: "(0::int) < msPerDay" by (simp add: msPerDay_def)
  have "a \<le> t div msPerDay"
    using assms(1) p by (metis Day_def Day_mult(1) zdiv_mono1)
  moreover have "t div msPerDay < b"
  proof -
    have "msPerDay * (t div msPerDay) \<le> t" using div_bounds[OF p, of t] by simp
    with assms(2) have "(t div msPerDay) * msPerDay < b * msPerDay" by (simp add: mult.commute)
    with p show ?thesis by simp
  qed
  ultimately show ?thesis by (simp add: Day_def)
qed

lemma fields_of_time_in_month:
  assumes "0 \<le> m" "m \<le> 11"
    and "MakeDay y m 1 * msPerDay \<le> t + tz" "t + tz < MakeDay y (m + 1) 1 * msPerDay"
  shows "getFullYear tz t = y \<and> getMonth tz t = m"
  using fields_of_day_in_month[OF assms(1,2), of y "Day (t + tz)"] Day_in_range[OF assms(3,4)]
  by (simp add: getFullYear_def getMonth_def)

text \<open>
  The month loop under its invariant: \<open>tempDate\<close> is local midnight of the first day of
  month \<open>m\<close> of a year \<open>y \<ge> 100\<close>.
\<close>

lemma month_step:
  assumes inv: "t + tz = MakeDay y m 1 * msPerDay" "0 \<le> m" "m \<le> 11" "100 \<le> y"
  shows "getFullYear tz t = y" "getMonth tz t = m"
    and "setMonth tz t (m + 1) = MakeDay y (m + 1) 1 * msPerDay - tz"
    and "Date_local tz y (m + 1) 0 = (MakeDay y (m + 1) 1 - 1) * msPerDay - tz"
    and "Date_local tz y (m + 1) 1 = MakeDay y (m + 1) 1 * msPerDay - tz"
proof -
  have gt: "MakeDay y m 1 < MakeDay y (m + 1) 1"
    using MakeDay_next_month[OF inv(2,3), of y 1] by simp
  have d: "Day (t + tz) = MakeDay y m 1" "TimeWithinDay (t + tz) = 0"
    by (simp_all add: inv(1) Day_mult)
  have f: "YearFromDay (MakeDay y m 1) = y" "MonthFromDay (MakeDay y m 1) = m"
    using fields_of_day_in_month[OF inv(2,3) order_refl gt] by simp_all
  show "getFullYear tz t = y" "getMonth tz t = m"
    by (simp_all add: getFullYear_def getMonth_def d f)
  have "MakeDay y m (DateFromDay (MakeDay y m 1)) = MakeDay y m 1"
    using MakeDay_fields[of "MakeDay y m 1" 0] by (simp add: f)
  then have one: "DateFromDay (MakeDay y m 1) = 1"
    using MakeDay_date[of y m "DateFromDay (MakeDay y m 1)"] by simp
  show "setMonth tz t (m + 1) = MakeDay y (m + 1) 1 * msPerDay - tz"
    by (simp add: setMonth_def Let_def d f one MakeDate_def)
  have ny: "\<not> (0 \<le> y \<and> y \<le> 99)" using inv(4) by simp
  show "Date_local tz y (m + 1) 0 = (MakeDay y (m + 1) 1 - 1) * msPerDay - tz"
    using MakeDay_date[of y "m + 1" 0] by (simp add: Date_local_def ny MakeDate_def)
  show "Date_local tz y (m + 1) 1 = MakeDay y (m + 1) 1 * msPerDay - tz"
    by (simp add: Date_local_def ny MakeDate_def)
qed

lemma month_next_inv:
  assumes "0 \<le> m" "m \<le> 11" "100 \<le> y"
  shows "\<exists>y' m'. MakeDay y (m + 1) 1 = MakeDay y' m' 1 \<and> 0 \<le> m' \<and> m' \<le> 11 \<and> 100 \<le> y'"
proof (cases "m = 11")
  case True
  have "MakeDay y 12 1 = MakeDay (y + 1) 0 1" by (simp add: MakeDay_def)
  with True assms(3) show ?thesis by (intro exI[of _ "y + 1"] exI[of _ 0]) simp
next
  case False
  with assms show ?thesis by (intro exI[of _ y] exI[of _ "m + 1"]) simp
qed

lemma monthly_flag:
  assumes inv: "t + tz = MakeDay y m 1 * msPerDay" "0 \<le> m" "m \<le> 11" "100 \<le> y"
    and le: "t \<le> e"
  defines "mEnd \<equiv> Date_local tz (getFullYear tz t) (getMonth tz t + 1) 0"
  shows "shouldApply tz Monthly (if mEnd > e then e else mEnd) e
       \<longleftrightarrow> setMonth tz t (getMonth tz t + 1) \<le> e"
proof -
  note s = month_step[OF inv]
  define a where "a = (if mEnd > e then e else mEnd)"
  have p: "(0::int) < msPerDay" by (simp add: msPerDay_def)
  have m: "mEnd = (MakeDay y (m + 1) 1 - 1) * msPerDay - tz"
    by (simp add: mEnd_def s)
  have gt: "MakeDay y m 1 + 28 \<le> MakeDay y (m + 1) 1"
    using MakeDay_next_month[OF inv(2,3), of y 1] by simp
  have "MakeDay y m 1 * msPerDay \<le> (MakeDay y (m + 1) 1 - 1) * msPerDay"
    using gt p by (intro mult_right_mono) simp_all
  then have tm: "t \<le> mEnd" using inv(1) m by simp
  have "(MakeDay y (m + 1) 1 - 1) * msPerDay < MakeDay y (m + 1) 1 * msPerDay"
    using p by (simp add: algebra_simps)
  then have mt: "mEnd + tz < MakeDay y (m + 1) 1 * msPerDay" using m by simp
  have "MakeDay y m 1 * msPerDay \<le> a + tz" "a + tz < MakeDay y (m + 1) 1 * msPerDay"
    using tm mt le inv(1) by (auto simp: a_def)
  then have f: "getFullYear tz a = y" "getMonth tz a = m"
    using fields_of_time_in_month[OF inv(2,3), of y a tz] by simp_all
  show ?thesis
    unfolding a_def[symmetric] by (simp add: shouldApply_def f s)
qed

lemma monthly_flags_loop:
  assumes "t + tz = MakeDay y m 1 * msPerDay" "0 \<le> m" "m \<le> 11" "100 \<le> y" "t \<le> e"
  shows "map (\<lambda>mi. shouldApply tz Monthly (monthEnd mi) e) (monthlyData_loop tz t e)
       = replicate (length (monthlyData_loop tz t e) - 1) True @ [False]"
  using assms
proof (induction tz t e arbitrary: y m rule: monthlyData_loop.induct)
  case (1 tz t e)
  note s = month_step[OF "1.prems"(1-4)]
  define t' where "t' = setMonth tz t (getMonth tz t + 1)"
  define seg where "seg = \<lparr>monthStart = t,
      monthEnd = (if Date_local tz (getFullYear tz t) (getMonth tz t + 1) 0 > e then e
                  else Date_local tz (getFullYear tz t) (getMonth tz t + 1) 0),
      displayMonth = displayMonthOf tz t\<rparr>"
  have unfold: "monthlyData_loop tz t e = seg # monthlyData_loop tz t' e"
    using "1.prems"(5) by (subst monthlyData_loop.simps) (simp add: Let_def seg_def t'_def)
  have flag: "shouldApply tz Monthly (monthEnd seg) e \<longleftrightarrow> t' \<le> e"
    using monthly_flag[OF "1.prems"] by (simp add: seg_def t'_def)
  show ?case
  proof (cases "t' \<le> e")
    case False
    then have "monthlyData_loop tz t' e = []"
      by (subst monthlyData_loop.simps) simp
    with flag False show ?thesis by (simp add: unfold)
  next
    case True
    obtain y' m' where n: "MakeDay y (m + 1) 1 = MakeDay y' m' 1" "0 \<le> m'" "m' \<le> 11" "100 \<le> y'"
      using month_next_inv[OF "1.prems"(2-4)] by blast
    have inv': "t' + tz = MakeDay y' m' 1 * msPerDay"
      by (simp add: t'_def s n(1)[symmetric])
    have ih: "map (\<lambda>mi. shouldApply tz Monthly (monthEnd mi) e) (monthlyData_loop tz t' e)
        = replicate (length (monthlyData_loop tz t' e) - 1) True @ [False]"
      unfolding t'_def
      by (rule "1.IH"[OF "1.prems"(5) refl refl refl inv'[unfolded t'_def] n(2-4)
            True[unfolded t'_def]])
    have ne: "monthlyData_loop tz t' e \<noteq> []"
      using True by (subst monthlyData_loop.simps) (simp add: Let_def)
    then obtain k where k: "length (monthlyData_loop tz t' e) = Suc k"
      by (cases "monthlyData_loop tz t' e") simp_all
    show ?thesis
      using flag True ih by (simp add: unfold k)
  qed
qed

lemma monthlyData_start:
  assumes "100 \<le> getFullYear tz start"
  shows "\<exists>y m. Date_local tz (getFullYear tz start) (getMonth tz start) 1 + tz
            = MakeDay y m 1 * msPerDay \<and> 0 \<le> m \<and> m \<le> 11 \<and> 100 \<le> y
          \<and> Date_local tz (getFullYear tz start) (getMonth tz start) 1 \<le> start"
proof -
  define L where "L = Day (start + tz)"
  have p: "(0::int) < msPerDay" by (simp add: msPerDay_def)
  have Y: "getFullYear tz start = YearFromDay L" "getMonth tz start = MonthFromDay L"
    by (simp_all add: getFullYear_def getMonth_def L_def)
  have ny: "\<not> (0 \<le> YearFromDay L \<and> YearFromDay L \<le> 99)"
    using assms unfolding Y by linarith
  have v: "Date_local tz (getFullYear tz start) (getMonth tz start) 1
      = MakeDay (YearFromDay L) (MonthFromDay L) 1 * msPerDay - tz"
    unfolding Y Date_local_def Let_def if_not_P[OF ny] by (simp add: MakeDate_def)
  have "MakeDay (YearFromDay L) (MonthFromDay L) 1 \<le> L"
    using MonthFromDay_bounds[of L] by simp
  then have "MakeDay (YearFromDay L) (MonthFromDay L) 1 * msPerDay \<le> L * msPerDay"
    using p by (intro mult_right_mono) simp_all
  moreover have "L * msPerDay \<le> start + tz"
    using div_bounds[OF p, of "start + tz"] by (simp add: L_def Day_def mult.commute)
  ultimately have "Date_local tz (getFullYear tz start) (getMonth tz start) 1 \<le> start"
    using v by simp
  then show ?thesis
    using v MonthFromDay_range[of L] assms
    by (intro exI[of _ "YearFromDay L"] exI[of _ "MonthFromDay L"]) (simp add: Y)
qed

lemma monthly_flags:
  assumes "100 \<le> getFullYear tz start" "start \<le> e"
  shows "map (\<lambda>mi. shouldApply tz Monthly (monthEnd mi) e) (monthlyData tz start e)
       = replicate (length (monthlyData tz start e) - 1) True @ [False]"
proof -
  obtain y m where i: "Date_local tz (getFullYear tz start) (getMonth tz start) 1 + tz
            = MakeDay y m 1 * msPerDay" "0 \<le> m" "m \<le> 11" "100 \<le> y"
    and le: "Date_local tz (getFullYear tz start) (getMonth tz start) 1 \<le> start"
    using monthlyData_start[OF assms(1)] by blast
  from le assms(2) have "Date_local tz (getFullYear tz start) (getMonth tz start) 1 \<le> e"
    by simp
  from monthly_flags_loop[OF i this] show ?thesis
    by (simp add: monthlyData_def)
qed

lemma processMonth_applied:
  assumes "processMonth tz end' tiers iType aType st monthInfo = Inr st'"
  shows "map applied (entries st')
       = map applied (entries st) @ [shouldApply tz aType (monthEnd monthInfo) end']"
  using assms
  by (auto simp: processMonth_def Let_def split: sum.splits if_splits)

lemma processMonths_applied:
  assumes "processMonths tz end' tiers iType aType st months = Inr st'"
  shows "map applied (entries st')
       = map applied (entries st) @ map (\<lambda>mi. shouldApply tz aType (monthEnd mi) end') months"
  using assms
proof (induction months arbitrary: st)
  case Nil
  then show ?case by simp
next
  case (Cons m months)
  then obtain st1 where a: "processMonth tz end' tiers iType aType st m = Inr st1"
    and b: "processMonths tz end' tiers iType aType st1 months = Inr st'"
    by (auto split: sum.splits)
  show ?case
    using Cons.IH[OF b] processMonth_applied[OF a] by simp
qed

text \<open>
  Claim C2, amended. Under the monthly cadence, for every valid request (here: the
  deposit and the tiers parse, the start is not after the end, and the start year is 100
  or later, years 0 to 99 being read as 1900 to 1999 by the \<^verbatim>\<open>Date\<close> constructor), also
  when \<open>endDate\<close> falls on the last day of a calendar month, the ledger entry of the final
  month segment has \<open>applied = false\<close>, and every earlier entry has \<open>applied = true\<close>.
\<close>

theorem monthly_last_segment_not_applied:
  assumes "Decimal_new depositAmount = Inr P" and "\<forall>t\<in>set tiers. wellformed_tier t"
    and "Date_parse startDate \<le> Date_parse endDate"
    and "100 \<le> getFullYear tz (Date_parse startDate)"
  shows "\<exists>r. calculateInterest tz depositAmount startDate endDate tiers iType Monthly = Inr r
       \<and> map applied (breakdown r) = replicate (length (breakdown r) - 1) True @ [False]"
proof -
  obtain st trs where
    s: "processMonths tz (Date_parse endDate) tiers iType Monthly
          \<lparr>currentBalance = P, cumulativeInterest = 0, accruedSoFar = 0, entries = []\<rparr>
          (monthlyData tz (Date_parse startDate) (Date_parse endDate)) = Inr st"
    and r: "calculateInterest tz depositAmount startDate endDate tiers iType Monthly
          = Inr \<lparr>totalInterest = cumulativeInterest st + accruedSoFar st,
                 finalAmount = currentBalance st + accruedSoFar st,
                 accruedInterest = accruedSoFar st,
                 breakdown = entries st,
                 tierResults = trs,
                 totalDays = calculateDays tz startDate endDate\<rparr>"
    using calculateInterest_ok[OF assms(1,2)] by blast
  have a: "map applied (entries st)
      = map (\<lambda>mi. shouldApply tz Monthly (monthEnd mi) (Date_parse endDate))
          (monthlyData tz (Date_parse startDate) (Date_parse endDate))"
    using processMonths_applied[OF s] by simp
  then have "length (entries st)
      = length (monthlyData tz (Date_parse startDate) (Date_parse endDate))"
    by (metis length_map)
  then have "map applied (entries st) = replicate (length (entries st) - 1) True @ [False]"
    using a monthly_flags[OF assms(4,3)] by simp
  with r show ?thesis by simp
qed

theorem monthly_last_segment_not_applied_witness:
  "Decimal_new ''1000'' = Inr 1000
   \<and> wellformed_tier \<lparr>tier_min = ''0'', tier_max = '''', rate = ''5''\<rparr>
   \<and> Date_parse \<lparr>year = 2024, month = 1, day = 15\<rparr> \<le> Date_parse \<lparr>year = 2024, month = 2, day = 29\<rparr>
   \<and> 100 \<le> getFullYear 25200000 (Date_parse \<lparr>year = 2024, month = 1, day = 15\<rparr>)
   \<and> (\<exists>r. calculateInterest 25200000 ''1000'' \<lparr>year = 2024, month = 1, day = 15\<rparr>
            \<lparr>year = 2024, month = 2, day = 29\<rparr>
            [\<lparr>tier_min = ''0'', tier_max = '''', rate = ''5''\<rparr>] Compound Monthly = Inr r
        \<and> map applied (breakdown r) = replicate (length (breakdown r) - 1) True @ [False])"
proof -
  have d: "Decimal_new ''1000'' = Inr 1000" by code_simp
  have w: "wellformed_tier \<lparr>tier_min = ''0'', tier_max = '''', rate = ''5''\<rparr>" by code_simp
  then have ws: "\<forall>t\<in>set [\<lparr>tier_min = ''0'', tier_max = '''', rate = ''5''\<rparr>]. wellformed_tier t"
    by simp
  have o: "Date_parse \<lparr>year = 2024, month = 1, day = 15\<rparr> \<le> Date_parse \<lparr>year = 2024, month = 2, day = 29\<rparr>"
    by code_simp
  have y: "100 \<le> getFullYear 25200000 (Date_parse \<lparr>year = 2024, month = 1, day = 15\<rparr>)"
    by code_simp
  show ?thesis
    using monthly_last_segment_not_applied[OF d ws o y, of Compound] d w o y by blast
qed

subsection \<open>Malformed tiers\<close>

text \<open>
  Claim C3 says that the engine's splitter skips a tier whose \<open>min\<close> or \<open>rate\<close> is
  empty or not a number. The engine's loop has no such test. With a principal of 1000
  and the tiers \<^verbatim>\<open>{min: '', max: '', rate: '1'}\<close>, \<^verbatim>\<open>{min: '0', max: '', rate: '2'}\<close>
  it throws at \<^verbatim>\<open>new Decimal(tier.min)\<close>, where the claim promises the split of the
  second tier alone; the copy of the splitter in the day-by-day table, which begins its
  loop with \<^verbatim>\<open>if (!tier.min || !tier.rate) continue\<close>, returns that split. A tier
  whose \<open>rate\<close> is empty is not skipped by the engine either: it receives the whole
  principal.
\<close>

theorem engine_splitter_malformed_tier:
  "splitAmountByTiers ''1000''
     [\<lparr>tier_min = '''', tier_max = '''', rate = ''1''\<rparr>,
      \<lparr>tier_min = ''0'', tier_max = '''', rate = ''2''\<rparr>] = Inl DecimalError
   \<and> splitAmountByTiers_daily ''1000''
     [\<lparr>tier_min = '''', tier_max = '''', rate = ''1''\<rparr>,
      \<lparr>tier_min = ''0'', tier_max = '''', rate = ''2''\<rparr>]
       = Inr [\<lparr>tier_min = ''0'', tier_max = '''', rate = ''2'', amount = 1000\<rparr>]
   \<and> splitAmountByTiers ''1000'' [\<lparr>tier_min = ''0'', tier_max = '''', rate = ''''\<rparr>]
       = Inr [\<lparr>tier_min = ''0'', tier_max = '''', rate = '''', amount = 1000, interest = 0\<rparr>]"
  by code_simp

subsection \<open>Compound against simple interest over 365 days\<close>

lemma Decimal_new_5: "Decimal_new ''5'' = Inr 5"
  by code_simp

text \<open>
  Claim C4, as stated, fails: over 365 days the exponent \<open>days / 365\<close> is 1, so the
  compound formula gives \<open>P * (1 + R) - P\<close>, the same as the simple formula. For a
  principal of 1000 at 5 per cent both give 50.
\<close>

theorem compound_not_above_simple_counterexample:
  "calculateCompoundInterest 1000 ''5'' 365 = Inr 50
   \<and> calculateSimpleInterest 1000 ''5'' 365 = Inr 50"
  by (simp add: calculateCompoundInterest_def calculateSimpleInterest_def Decimal_pow_def
      Decimal_new_5)

text \<open>
  Claim C4, amended. For every principal \<open>P > 0\<close> and every annual rate \<open>R > 0\<close>,
  compound interest over 365 days equals simple interest over 365 days (both are
  \<open>P * R / 100\<close>); it does not exceed it.
\<close>

theorem compound_eq_simple_365:
  assumes "0 < P" and "Decimal_new rateStr = Inr R" and "0 < R"
  shows "calculateCompoundInterest P rateStr 365 = Inr (P * R / 100)
       \<and> calculateSimpleInterest P rateStr 365 = Inr (P * R / 100)"
proof -
  have "\<bar>1 + R / 100\<bar> = 1 + R / 100" using assms(3) by simp
  then show ?thesis
    using assms(2)
    by (simp add: calculateCompoundInterest_def calculateSimpleInterest_def Decimal_pow_def
        algebra_simps)
qed

theorem compound_eq_simple_365_witness:
  "(0::real) < 1000 \<and> Decimal_new ''5'' = Inr 5 \<and> (0::real) < 5
   \<and> calculateCompoundInterest 1000 ''5'' 365 = Inr 50
   \<and> calculateSimpleInterest 1000 ''5'' 365 = Inr 50"
  using compound_eq_simple_365[of 1000 "''5''" 5] Decimal_new_5 by simp

subsection \<open>The allocations of a tier set that covers the half-line\<close>

text \<open>
  A principal \<open>p\<close> lies in the band of a tier when \<open>min \<le> p\<close> and, if the tier has a
  \<open>max\<close>, \<open>p \<le> max\<close>.
\<close>

definition in_band :: "real \<Rightarrow> InterestTier \<Rightarrow> bool" where
  "in_band p t =
     (case Decimal_new (tier_min t) of
        Inl e \<Rightarrow> False
      | Inr lo \<Rightarrow>
          lo \<le> p \<and>
          (tier_max t = [] \<or>
           (case Decimal_new (tier_max t) of Inl e \<Rightarrow> False | Inr hi \<Rightarrow> p \<le> hi)))"

text \<open>
  Bands listed by ascending \<open>min\<close> that do not overlap: each band begins at or after
  \<open>prev\<close>, the end of the band before it, is not empty, and the last band has no \<open>max\<close>.
\<close>

fun ordered_bands :: "real \<Rightarrow> InterestTier list \<Rightarrow> bool" where
  "ordered_bands prev [] = False"
| "ordered_bands prev [t] =
     (case Decimal_new (tier_min t) of
        Inl e \<Rightarrow> False
      | Inr lo \<Rightarrow> prev \<le> lo \<and> tier_max t = [])"
| "ordered_bands prev (t # t' # ts) =
     (case Decimal_new (tier_min t) of
        Inl e \<Rightarrow> False
      | Inr lo \<Rightarrow>
          prev \<le> lo \<and>
          (case Decimal_new (tier_max t) of
             Inl e \<Rightarrow> False
           | Inr hi \<Rightarrow> lo < hi \<and> ordered_bands hi (t' # ts)))"

definition min_key :: "InterestTier \<Rightarrow> real" where
  "min_key t = (case parseFloat (tier_min t) of None \<Rightarrow> 0 | Some v \<Rightarrow> v)"

lemma digit_of_space: "is_space c \<Longrightarrow> digit_of c = None"
  by (auto simp: is_space_def digit_of_def)

lemma Decimal_new_nonempty: "Decimal_new s = Inr v \<Longrightarrow> s \<noteq> []"
  by (auto simp: Decimal_new_def take_sign_def parse_unsigned_def)

lemma Decimal_new_parseFloat:
  assumes "Decimal_new s = Inr v"
  shows "parseFloat s = Some v"
proof -
  have "dropWhile is_space s = s"
  proof (cases s)
    case Nil
    then show ?thesis by simp
  next
    case (Cons c cs)
    have "\<not> is_space c"
    proof
      assume sp: "is_space c"
      then have "take_sign s = (1, s)"
        by (auto simp: take_sign_def Cons is_space_def)
      moreover have "parse_unsigned s = None"
        using sp digit_of_space[OF sp]
        by (auto simp: parse_unsigned_def Cons is_space_def)
      ultimately show False using assms by (simp add: Decimal_new_def)
    qed
    then show ?thesis by (simp add: Cons)
  qed
  then show ?thesis
    using assms
    by (auto simp: parseFloat_def Decimal_new_def split: prod.splits option.splits if_splits)
qed

lemma insort_tier_insort_key:
  assumes "parseFloat (tier_min x) \<noteq> None" "\<forall>y\<in>set ys. parseFloat (tier_min y) \<noteq> None"
  shows "insort_tier x ys = insort_key min_key x ys"
  using assms
  by (induction ys) (auto simp: compare_min_def min_key_def)

lemma sortedTiers_sort_key:
  assumes "\<forall>t\<in>set tiers. parseFloat (tier_min t) \<noteq> None"
  shows "sortedTiers tiers = sort_key min_key tiers"
  using assms
proof (induction tiers)
  case Nil
  then show ?case by (simp add: sortedTiers_def)
next
  case (Cons t tiers)
  then have ih: "sortedTiers tiers = sort_key min_key tiers" by simp
  have "\<forall>y\<in>set (sortedTiers tiers). parseFloat (tier_min y) \<noteq> None"
    using Cons.prems by (simp add: set_sortedTiers)
  then have "insort_tier t (sortedTiers tiers) = insort_key min_key t (sortedTiers tiers)"
    using Cons.prems by (intro insort_tier_insort_key) simp_all
  then show ?case
    using ih by (simp add: sortedTiers_def sort_key_def)
qed

lemma ordered_bands_keys:
  assumes "ordered_bands prev ts"
  shows "sorted_wrt (<) (map min_key ts) \<and> (\<forall>t\<in>set ts. prev \<le> min_key t)
       \<and> (\<forall>t\<in>set ts. parseFloat (tier_min t) \<noteq> None)"
  using assms
proof (induction prev ts rule: ordered_bands.induct)
  case (1 prev)
  then show ?case by simp
next
  case (2 prev t)
  then show ?case
    by (auto simp: min_key_def split: sum.splits dest: Decimal_new_parseFloat)
next
  case (3 prev t t' ts)
  from "3.prems" obtain lo hi where
    lo: "Decimal_new (tier_min t) = Inr lo" and hi: "Decimal_new (tier_max t) = Inr hi"
    and le: "prev \<le> lo" and lt: "lo < hi" and rest: "ordered_bands hi (t' # ts)"
    by (auto split: sum.splits)
  have k: "min_key t = lo" "parseFloat (tier_min t) \<noteq> None"
    using Decimal_new_parseFloat[OF lo] by (simp_all add: min_key_def)
  from "3.IH"[OF lo hi rest]
  have ih: "sorted_wrt (<) (map min_key (t' # ts))" "\<forall>u\<in>set (t' # ts). hi \<le> min_key u"
    "\<forall>u\<in>set (t' # ts). parseFloat (tier_min u) \<noteq> None"
    by simp_all
  show ?case
    using k le lt ih by (auto simp: less_le_trans)
qed

text \<open>The sort of the splitter puts any arrangement of such bands into their order.\<close>

lemma sortedTiers_ordered_bands:
  assumes "mset tiers = mset ts" "ordered_bands prev ts"
  shows "sortedTiers tiers = ts"
proof -
  have k: "sorted_wrt (<) (map min_key ts)" "\<forall>t\<in>set ts. parseFloat (tier_min t) \<noteq> None"
    using ordered_bands_keys[OF assms(2)] by simp_all
  have s: "set tiers = set ts" using assms(1) by (rule mset_eq_setD)
  have "sorted (map min_key ts)" "distinct (map min_key ts)"
    using k(1) by (simp_all add: strict_sorted_iff)
  then have "inj_on min_key (set tiers)" "sorted (map min_key ts)"
    by (simp_all add: distinct_map s)
  then have "sort_key min_key tiers = ts"
    using assms(1) by (intro sort_key_inj_key_eq) simp_all
  then show ?thesis
    using sortedTiers_sort_key[of tiers] k(2) s by simp
qed

lemma ordered_bands_in_band:
  assumes "ordered_bands prev ts" "t \<in> set ts" "in_band p t"
  shows "prev \<le> p"
proof -
  have "prev \<le> min_key t" "parseFloat (tier_min t) \<noteq> None"
    using ordered_bands_keys[OF assms(1)] assms(2) by simp_all
  moreover have "min_key t \<le> p"
    using assms(3)
    by (auto simp: in_band_def min_key_def split: sum.splits dest: Decimal_new_parseFloat)
  ultimately show ?thesis by simp
qed

lemma split_loop_bands:
  assumes "ordered_bands prev ts" "processed \<le> P"
    and "processed < P \<longrightarrow> processed \<le> prev \<and> (\<exists>t\<in>set ts. in_band P t)"
    and "sum_list (map amount result) = processed"
  shows "\<exists>res. split_loop P processed result ts = Inr res \<and> sum_list (map amount res) = P"
  using assms
proof (induction prev ts arbitrary: processed result rule: ordered_bands.induct)
  case (1 prev)
  then show ?case by simp
next
  case (2 prev t)
  from "2.prems"(1) obtain lo where
    lo: "Decimal_new (tier_min t) = Inr lo" and le: "prev \<le> lo" and mx: "tier_max t = []"
    by (auto split: sum.splits)
  have p: "parse_max (tier_max t) = Inr None" by (simp add: parse_max_def mx)
  show ?case
  proof (cases "P \<le> processed")
    case True
    with "2.prems" lo p show ?thesis by simp
  next
    case False
    with "2.prems"(3) have pp: "processed \<le> prev" "in_band P t" by simp_all
    then have lp: "lo \<le> P" using lo by (simp add: in_band_def)
    define result' where "result' = result @ [\<lparr>tier_min = tier_min t, tier_max = tier_max t,
        rate = rate t, amount = P - processed, interest = 0\<rparr>]"
    have "split_loop P processed result [t] = Inr result'"
      using lo p lp False by (simp add: Let_def result'_def)
    moreover have "sum_list (map amount result') = P"
      using "2.prems"(4) by (simp add: result'_def)
    ultimately show ?thesis by simp
  qed
next
  case (3 prev t t' ts)
  from "3.prems"(1) obtain lo hi where
    lo: "Decimal_new (tier_min t) = Inr lo" and hi: "Decimal_new (tier_max t) = Inr hi"
    and le: "prev \<le> lo" and lt: "lo < hi" and rest: "ordered_bands hi (t' # ts)"
    by (auto split: sum.splits)
  have ne: "tier_max t \<noteq> []" using Decimal_new_nonempty[OF hi] .
  then have mx: "parse_max (tier_max t) = Inr (Some hi)"
    using hi by (simp add: parse_max_def)
  show ?case
  proof (cases "P \<le> processed")
    case True
    with "3.prems" lo mx show ?thesis by simp
  next
    case False
    with "3.prems"(3) obtain u where pp: "processed \<le> prev" "u \<in> set (t # t' # ts)" "in_band P u"
      by auto
    have lp: "lo \<le> P"
    proof (cases "u = t")
      case True
      with pp(3) lo show ?thesis by (simp add: in_band_def)
    next
      case False
      with pp(2) have "u \<in> set (t' # ts)" by simp
      from ordered_bands_in_band[OF rest this pp(3)] lt show ?thesis by simp
    qed
    define a where "a = min (hi - processed) (P - processed)"
    define result' where "result' = result @ [\<lparr>tier_min = tier_min t, tier_max = tier_max t,
        rate = rate t, amount = a, interest = 0\<rparr>]"
    have a: "0 < a" "processed + a \<le> P"
      using lt le pp(1) False by (auto simp: a_def min_def)
    have later: "processed + a < P \<longrightarrow> processed + a \<le> hi \<and> (\<exists>v\<in>set (t' # ts). in_band P v)"
    proof
      assume "processed + a < P"
      then have b: "processed + a = hi" "hi < P" by (auto simp: a_def min_def split: if_splits)
      have "u \<noteq> t"
      proof
        assume "u = t"
        with pp(3) hi ne have "P \<le> hi" by (auto simp: in_band_def split: sum.splits)
        with b(2) show False by simp
      qed
      with pp(2,3) b(1) show "processed + a \<le> hi \<and> (\<exists>v\<in>set (t' # ts). in_band P v)"
        by auto
    qed
    have step: "split_loop P processed result (t # t' # ts)
        = split_loop P (processed + a) result' (t' # ts)"
      using lo mx lp False a(1) by (simp add: Let_def a_def result'_def)
    have "sum_list (map amount result') = processed + a"
      using "3.prems"(4) by (simp add: result'_def)
    from "3.IH"[OF lo hi rest a(2) later this] show ?thesis
      by (simp only: step)
  qed
qed

text \<open>
  The general fact: for bands that do not overlap, given in any order, the amounts sum
  to the principal whenever the principal is 0 or lies in one of the bands (between two
  bands that leave a gap, such as 1000.00 and 1000.01, it does not).
\<close>

lemma allocations_sum_in_band:
  assumes "mset tiers = mset ts" and "ordered_bands 0 ts"
    and "Decimal_new amountStr = Inr P" and "0 \<le> P" and "P = 0 \<or> (\<exists>t\<in>set ts. in_band P t)"
  shows "\<exists>res. splitAmountByTiers amountStr tiers = Inr res \<and> sum_list (map amount res) = P"
proof -
  have "sortedTiers tiers = ts"
    using sortedTiers_ordered_bands[OF assms(1,2)] .
  moreover have "\<exists>res. split_loop P 0 [] ts = Inr res \<and> sum_list (map amount res) = P"
    using assms(2,4,5) by (intro split_loop_bands[where prev = 0]) auto
  ultimately show ?thesis
    by (simp add: splitAmountByTiers_def splitDecimalByTiers_def assms(3))
qed

text \<open>
  Claim C5. For every non-empty tier set whose bands do not overlap, are contiguous and
  cover \<open>[0, \<infinity>)\<close> (every \<open>p \<ge> 0\<close> lies in a band; the last band is open-ended), given
  in any order, and for every principal \<open>P \<ge> 0\<close>, the amounts of the allocations that the
  splitter returns sum exactly to \<open>P\<close>.
\<close>

theorem allocations_sum_to_principal:
  assumes "mset tiers = mset ts" and "ordered_bands 0 ts"
    and "\<forall>p\<ge>0. \<exists>t\<in>set ts. in_band p t"
    and "Decimal_new amountStr = Inr P" and "0 \<le> P"
  shows "\<exists>res. splitAmountByTiers amountStr tiers = Inr res \<and> sum_list (map amount res) = P"
  using allocations_sum_in_band[OF assms(1,2,4,5)] assms(3,5) by blast

theorem allocations_sum_to_principal_witness:
  "\<exists>res. splitAmountByTiers ''1500.50''
          [\<lparr>tier_min = ''1000'', tier_max = '''', rate = ''2''\<rparr>,
           \<lparr>tier_min = ''0'', tier_max = ''1000'', rate = ''1''\<rparr>] = Inr res
        \<and> sum_list (map amount res) = 3001 / 2"
proof -
  have m: "mset [\<lparr>tier_min = ''1000'', tier_max = '''', rate = ''2''\<rparr>,
         \<lparr>tier_min = ''0'', tier_max = ''1000'', rate = ''1''\<rparr>]
     = mset [\<lparr>tier_min = ''0'', tier_max = ''1000'', rate = ''1''\<rparr>,
             \<lparr>tier_min = ''1000'', tier_max = '''', rate = ''2''\<rparr>]"
    by (simp add: add.commute)
  have c: "ordered_bands 0 [\<lparr>tier_min = ''0'', tier_max = ''1000'', rate = ''1''\<rparr>,
                         \<lparr>tier_min = ''1000'', tier_max = '''', rate = ''2''\<rparr>]"
    by code_simp
  have n: "Decimal_new ''0'' = Inr 0" "Decimal_new ''1000'' = Inr 1000" by code_simp+
  have v: "\<forall>p\<ge>0. \<exists>t\<in>set [\<lparr>tier_min = ''0'', tier_max = ''1000'', rate = ''1''\<rparr>,
                         \<lparr>tier_min = ''1000'', tier_max = '''', rate = ''2''\<rparr>]. in_band p t"
    by (auto simp: in_band_def n)
  have d: "Decimal_new ''1500.50'' = Inr (3001 / 2)" by code_simp
  have p: "(0::real) \<le> 3001 / 2" by simp
  show ?thesis
    using allocations_sum_to_principal[OF m c v d p] .
qed

subsection \<open>The bookkeeping of the month loop\<close>








subsection \<open>The totals of the result\<close>



subsection \<open>The ledger entries\<close>



subsection \<open>The splitter on a principal that is not positive\<close>




subsection \<open>Determinism\<close>



end
